theory Spec2Isabelle
  imports Main "HOL-Library.Word"
begin

section \<open>Overview\<close>

text \<open>
  The client is a set of React components over an axios API client. The sources hold two
  generations of it. In one the root coordinator (App) polls the status endpoint from an
  interval timer and hands the preview URL and the archive URL down to Preview and
  DownloadButton, and \<open>downloadZip\<close> navigates to the URL it is given. In the other the
  root only holds the identifier, Preview fetches the status itself after stopping the
  preview, and DownloadButton and \<open>downloadZip\<close> take the identifier. Both are modelled,
  each component against the API client it is written for.

  A component is a record of its state slots together with the part of the runtime its
  effect talks to, and a step function over events. An \<open>async\<close> function is split at its
  \<open>await\<close>: the part before issues the request, the part after runs when the request
  settles, and other events may come in between. A render commit (the state update, the
  cleanup of the previous effect, the effect) is one step. The body of a fulfilled
  response is a JSON object whose fields may be missing.
\<close>

section \<open>JavaScript values\<close>

text \<open>
  Project identifiers, URLs and error messages are only stored, compared and tested for
  truthiness by the client, so they are kept as \<open>string\<close>. A state slot that holds
  \<open>null\<close> (or \<open>undefined\<close>) is \<open>None\<close>. The description typed by the user is
  trimmed, which depends on its UTF-16 code units, so it is a list of 16-bit words.
\<close>

type_synonym jsval = "string option"

text \<open>\<open>!v\<close> is true for \<open>null\<close>, \<open>undefined\<close> and the empty string.\<close>

definition truthy :: "jsval \<Rightarrow> bool" where
  "truthy v = (case v of None \<Rightarrow> False | Some x \<Rightarrow> x \<noteq> [])"

section \<open>API client (services/api.js)\<close>

text \<open>
  The outcome of one axios request: the response body, or a rejection that carries
  \<open>error.response?.data?.detail\<close> (\<open>None\<close> when any link of the chain is missing).
\<close>

datatype 'a axios = Fulfilled 'a | Rejected jsval

record status_data =
  status :: jsval
  preview_url :: jsval
  zip_url :: jsval

record generate_data =
  project_id :: jsval

text \<open>\<open>new Error(detail || fallback)\<close>: the message of the thrown error.\<close>

definition error_message :: "jsval \<Rightarrow> string \<Rightarrow> string" where
  "error_message detail fallback =
     (case detail of None \<Rightarrow> fallback | Some d \<Rightarrow> if d = [] then fallback else d)"

definition generateProject :: "generate_data axios \<Rightarrow> string + generate_data" where
  "generateProject r =
     (case r of Fulfilled d \<Rightarrow> Inr d
      | Rejected detail \<Rightarrow> Inl (error_message detail ''Generation failed''))"

definition checkStatus :: "status_data axios \<Rightarrow> string + status_data" where
  "checkStatus r =
     (case r of Fulfilled d \<Rightarrow> Inr d
      | Rejected detail \<Rightarrow> Inl (error_message detail ''Status check failed''))"


text \<open>\<open>downloadZip\<close> assigns \<open>window.location.href\<close>; the browser location is the state.\<close>

definition downloadZip :: "string \<Rightarrow> string \<Rightarrow> string" where
  "downloadZip zipUrl href = zipUrl"

text \<open>The variant of frontend/services/api.js builds the endpoint from the identifier.\<close>

definition downloadZip_byId :: "string \<Rightarrow> string \<Rightarrow> string \<Rightarrow> string" where
  "downloadZip_byId API_URL projectId href = API_URL @ ''/api/download/'' @ projectId"

section \<open>Root coordinator with the polling effect (App)\<close>

text \<open>
  The component state is the five \<open>useState\<close> slots. The rest of the record is the
  runtime the effect talks to: the active interval timers (handle, the identifier captured
  by the callback closure, the time of the next firing), the handle captured by the
  cleanup function the last effect returned, the status requests that were issued and
  have not settled yet (each with the handle its continuation would clear), a clock in
  milliseconds, and the trace of timer operations and requests with their times.
\<close>

record timer =
  handle :: nat
  session :: string
  due :: nat

datatype op = SetInterval nat string | ClearInterval nat | CheckStatus nat string

record app =
  projectId :: jsval
  previewUrl :: jsval
  zipUrl :: jsval
  loadingPreview :: bool
  error :: jsval
  timers :: "timer list"
  cleanup :: "nat option"
  inflight :: "(nat \<times> string) list"
  nextHandle :: nat
  now :: nat
  trace :: "(nat \<times> op) list"

definition app_init :: app where
  "app_init = \<lparr>projectId = None, previewUrl = None, zipUrl = None, loadingPreview = False,
     error = None, timers = [], cleanup = None, inflight = [], nextHandle = 0, now = 0,
     trace = []\<rparr>"

definition poll_interval :: nat where
  "poll_interval = 5000"

definition setInterval :: "string \<Rightarrow> app \<Rightarrow> app" where
  "setInterval p s =
     s\<lparr>timers := timers s @ [\<lparr>handle = nextHandle s, session = p, due = now s + poll_interval\<rparr>],
       nextHandle := Suc (nextHandle s),
       trace := trace s @ [(now s, SetInterval (nextHandle s) p)]\<rparr>"

definition clearInterval :: "nat \<Rightarrow> app \<Rightarrow> app" where
  "clearInterval h s =
     s\<lparr>timers := filter (\<lambda>t. handle t \<noteq> h) (timers s),
       trace := trace s @ [(now s, ClearInterval h)]\<rparr>"

definition handleGenerate :: "jsval \<Rightarrow> app \<Rightarrow> app" where
  "handleGenerate pid s = s\<lparr>projectId := pid, loadingPreview := True, error := None\<rparr>"

text \<open>The body of the effect: the guard, then \<open>setInterval\<close>; it returns the cleanup.\<close>

definition pollEffect :: "app \<Rightarrow> app" where
  "pollEffect s =
     (case projectId s of
        None \<Rightarrow> s\<lparr>cleanup := None\<rparr>
      | Some p \<Rightarrow>
          if p = [] then s\<lparr>cleanup := None\<rparr>
          else (setInterval p s)\<lparr>cleanup := Some (nextHandle s)\<rparr>)"

definition runCleanup :: "app \<Rightarrow> app" where
  "runCleanup s = (case cleanup s of None \<Rightarrow> s | Some h \<Rightarrow> clearInterval h s)"

text \<open>
  A render commit: with the dependency \<open>[projectId]\<close> unchanged nothing runs; otherwise the
  cleanup of the previous effect runs, then the effect body.
\<close>

definition commit :: "jsval \<Rightarrow> app \<Rightarrow> app" where
  "commit prev s = (if projectId s = prev then s else pollEffect (runCleanup s))"

text \<open>The timer callback up to its \<open>await\<close>: the request is issued.\<close>

definition pollTick :: "timer \<Rightarrow> app \<Rightarrow> app" where
  "pollTick t s =
     s\<lparr>inflight := inflight s @ [(handle t, session t)],
       trace := trace s @ [(now s, CheckStatus (handle t) (session t))]\<rparr>"

definition fire :: "nat \<Rightarrow> app \<Rightarrow> app" where
  "fire h s =
     (case find (\<lambda>t. handle t = h) (timers s) of
        None \<Rightarrow> s
      | Some t \<Rightarrow>
          pollTick t
            (s\<lparr>now := due t,
               timers := map (\<lambda>u. if handle u = h then u\<lparr>due := due u + poll_interval\<rparr> else u)
                          (timers s)\<rparr>))"

text \<open>The timer callback after its \<open>await\<close>: the \<open>try\<close> body or the \<open>catch\<close> branch.\<close>

definition pollSettled :: "nat \<Rightarrow> status_data axios \<Rightarrow> app \<Rightarrow> app" where
  "pollSettled h r s =
     (case checkStatus r of
        Inr d \<Rightarrow>
          if status d = Some ''ready''
          then clearInterval h
                 (s\<lparr>previewUrl := preview_url d, zipUrl := zip_url d, loadingPreview := False\<rparr>)
          else s
      | Inl msg \<Rightarrow> clearInterval h (s\<lparr>error := Some msg, loadingPreview := False\<rparr>))"

definition settle :: "nat \<Rightarrow> status_data axios \<Rightarrow> app \<Rightarrow> app" where
  "settle k r s =
     (if k < length (inflight s)
      then pollSettled (fst (inflight s ! k)) r
             (s\<lparr>inflight := take k (inflight s) @ drop (Suc k) (inflight s)\<rparr>)
      else s)"

text \<open>
  The events of the root coordinator: a successful submission reports an identifier
  (\<open>handleGenerate\<close>, then the commit of the render it causes); the timer with a handle
  fires; the \<open>k\<close>-th outstanding status request settles; time passes without any timer
  becoming due.
\<close>

datatype event =
  Generate jsval
  | Tick nat
  | Settle nat "status_data axios"
  | Elapse nat

fun step :: "app \<Rightarrow> event \<Rightarrow> app" where
  "step s (Generate pid) = commit (projectId s) (handleGenerate pid s)"
| "step s (Tick h) = fire h s"
| "step s (Settle k r) = settle k r s"
| "step s (Elapse d) =
     (if list_all (\<lambda>t. now s + d < due t) (timers s) then s\<lparr>now := now s + d\<rparr> else s)"

definition run :: "app \<Rightarrow> event list \<Rightarrow> app" where
  "run s es = foldl step s es"

text \<open>The status requests in a trace, and those issued by the callback of one timer.\<close>

fun is_query :: "nat \<times> op \<Rightarrow> bool" where
  "is_query (t, CheckStatus h p) = True"
| "is_query (t, SetInterval h p) = False"
| "is_query (t, ClearInterval h) = False"

fun issued_by :: "nat \<Rightarrow> nat \<times> op \<Rightarrow> bool" where
  "issued_by h (t, CheckStatus h' p) = (h' = h)"
| "issued_by h (t, SetInterval h' p) = False"
| "issued_by h (t, ClearInterval h') = False"

definition queries :: "app \<Rightarrow> (nat \<times> op) list" where
  "queries s = filter is_query (trace s)"

definition queries_of :: "nat \<Rightarrow> app \<Rightarrow> (nat \<times> op) list" where
  "queries_of h s = filter (issued_by h) (trace s)"

section \<open>What the root coordinator renders\<close>

text \<open>components/Preview.js: the loading placeholder, nothing, or the embedded frame.\<close>

datatype preview_view = PreviewLoading | PreviewNull | PreviewFrame string

definition Preview :: "jsval \<Rightarrow> bool \<Rightarrow> preview_view" where
  "Preview url loading =
     (if loading then PreviewLoading
      else case url of None \<Rightarrow> PreviewNull
           | Some u \<Rightarrow> if u = [] then PreviewNull else PreviewFrame u)"

text \<open>
  components/DownloadButton.js: nothing without a URL, otherwise a button with its
  \<open>disabled\<close> attribute and the URL its click handler passes to \<open>downloadZip\<close>.
\<close>

datatype button = NoButton | Button bool string

definition DownloadButton :: "jsval \<Rightarrow> bool \<Rightarrow> button" where
  "DownloadButton url disabled =
     (case url of None \<Rightarrow> NoButton
      | Some u \<Rightarrow> if u = [] then NoButton else Button disabled u)"

text \<open>
  The user activates the download action: without a button, or on a disabled button, no
  click handler runs and the location stays; otherwise the handler calls \<open>downloadZip\<close>.
\<close>

fun activate :: "button \<Rightarrow> string \<Rightarrow> string" where
  "activate NoButton href = href"
| "activate (Button disabled u) href = (if disabled then href else downloadZip u href)"

fun enabled :: "button \<Rightarrow> bool" where
  "enabled NoButton = False"
| "enabled (Button disabled u) = (\<not> disabled)"

text \<open>
  The variant that takes the identifier: always a button, disabled on a falsy identifier,
  whose handler checks the identifier again before calling \<open>downloadZip\<close>.
\<close>

datatype button_byId = ButtonById bool jsval

definition DownloadButton_byId :: "jsval \<Rightarrow> button_byId" where
  "DownloadButton_byId pid = ButtonById (\<not> truthy pid) pid"

definition handleDownload :: "string \<Rightarrow> jsval \<Rightarrow> string \<Rightarrow> string" where
  "handleDownload API_URL pid href =
     (case pid of None \<Rightarrow> href
      | Some p \<Rightarrow> if p = [] then href else downloadZip_byId API_URL p href)"

fun activate_byId :: "string \<Rightarrow> button_byId \<Rightarrow> string \<Rightarrow> string" where
  "activate_byId API_URL (ButtonById disabled pid) href =
     (if disabled then href else handleDownload API_URL pid href)"

fun enabled_byId :: "button_byId \<Rightarrow> bool" where
  "enabled_byId (ButtonById disabled pid) = (\<not> disabled)"

definition render_preview :: "app \<Rightarrow> preview_view" where
  "render_preview s = Preview (previewUrl s) (loadingPreview s)"

definition render_download :: "app \<Rightarrow> button" where
  "render_download s = DownloadButton (zipUrl s) (loadingPreview s)"

text \<open>\<open>{error && <div className="error">{error}</div>}\<close>\<close>

definition render_error :: "app \<Rightarrow> jsval" where
  "render_error s = (if truthy (error s) then error s else None)"

section \<open>Input component (components/InputForm.js)\<close>

text \<open>
  \<open>String.prototype.trim\<close> strips the code units of ECMAScript's WhiteSpace and
  LineTerminator productions from both ends.
\<close>

definition is_ws :: "16 word \<Rightarrow> bool" where
  "is_ws c = (c \<in> set [0x0009, 0x000A, 0x000B, 0x000C, 0x000D, 0x0020, 0x00A0, 0x1680,
                       0x2000, 0x2001, 0x2002, 0x2003, 0x2004, 0x2005, 0x2006, 0x2007,
                       0x2008, 0x2009, 0x200A, 0x2028, 0x2029, 0x202F, 0x205F, 0x3000,
                       0xFEFF])"

definition trim :: "16 word list \<Rightarrow> 16 word list" where
  "trim xs = rev (dropWhile is_ws (rev (dropWhile is_ws xs)))"

record form =
  description :: "16 word list"
  loading :: bool
  error_form :: jsval

text \<open>What the submit action does to the outside: the request, the report to the parent.\<close>

datatype form_out = PostGenerate "16 word list" | OnGenerate jsval

text \<open>\<open>handleGenerate\<close> of the form up to its \<open>await\<close>.\<close>

definition handleGenerate_form :: "form \<Rightarrow> form \<times> form_out list" where
  "handleGenerate_form f =
     (if trim (description f) = [] then (f, [])
      else (f\<lparr>loading := True, error_form := None\<rparr>, [PostGenerate (description f)]))"

text \<open>\<open>handleGenerate\<close> of the form after its \<open>await\<close>: \<open>try\<close> or \<open>catch\<close>, then \<open>finally\<close>.\<close>

definition handleGenerate_form_settled :: "generate_data axios \<Rightarrow> form \<Rightarrow> form \<times> form_out list" where
  "handleGenerate_form_settled r f =
     (case generateProject r of
        Inr d \<Rightarrow> (f\<lparr>loading := False\<rparr>, [OnGenerate (project_id d)])
      | Inl msg \<Rightarrow> (f\<lparr>error_form := Some msg, loading := False\<rparr>, []))"

text \<open>The submit button is disabled while loading: a click then runs no handler.\<close>

definition click_generate :: "form \<Rightarrow> form \<times> form_out list" where
  "click_generate f = (if loading f then (f, []) else handleGenerate_form f)"

section \<open>Preview component with teardown (the variant that takes the identifier)\<close>














section \<open>Reachable states of the root coordinator\<close>

text \<open>
  What every state reached from the mount satisfies: at most one interval timer is active;
  an active timer is the one the current cleanup function would clear, it polls the tracked
  identifier, and it is due in the future; handles in use or in the trace are below the
  next handle; and a cleanup function exists exactly when the tracked identifier is truthy.
\<close>

fun op_handle :: "nat \<times> op \<Rightarrow> nat" where
  "op_handle (t, SetInterval h p) = h"
| "op_handle (t, ClearInterval h) = h"
| "op_handle (t, CheckStatus h p) = h"

definition app_inv :: "app \<Rightarrow> bool" where
  "app_inv s \<longleftrightarrow>
     length (timers s) \<le> 1
     \<and> (\<forall>t\<in>set (timers s). cleanup s = Some (handle t) \<and> projectId s = Some (session t)
            \<and> session t \<noteq> [] \<and> now s < due t)
     \<and> (\<forall>h. cleanup s = Some h \<longrightarrow> h < nextHandle s)
     \<and> (\<forall>q\<in>set (inflight s). fst q < nextHandle s)
     \<and> (\<forall>e\<in>set (trace s). op_handle e < nextHandle s)
     \<and> (truthy (projectId s) \<longleftrightarrow> cleanup s \<noteq> None)"

fun is_generate :: "event \<Rightarrow> bool" where
  "is_generate (Generate pid) = True"
| "is_generate (Tick h) = False"
| "is_generate (Settle k r) = False"
| "is_generate (Elapse d) = False"

section \<open>Example data\<close>

text \<open>Snapshots and runs at which the theorems below are instantiated.\<close>

definition pending_snapshot :: status_data where
  "pending_snapshot = \<lparr>status = Some ''pending'', preview_url = None, zip_url = None\<rparr>"

definition ready_snapshot :: status_data where
  "ready_snapshot = \<lparr>status = Some ''ready'', preview_url = Some ''/p1/preview'',
     zip_url = Some ''/p1.zip''\<rparr>"

definition stale_run :: "event list" where
  "stale_run = [Generate (Some ''p1''), Tick 0, Settle 0 (Fulfilled ready_snapshot),
                Generate (Some ''p2'')]"

definition failing_run :: "event list" where
  "failing_run = [Generate (Some ''p1''), Tick 0, Settle 0 (Fulfilled pending_snapshot), Tick 0]"

section \<open>Runs and the invariant\<close>

lemmas app_eval = run_def app_init_def commit_def handleGenerate_def pollEffect_def
  runCleanup_def setInterval_def clearInterval_def fire_def pollTick_def settle_def
  pollSettled_def checkStatus_def poll_interval_def error_message_def queries_def
  queries_of_def pending_snapshot_def ready_snapshot_def

lemma run_Nil: "run s [] = s"
  by (simp add: run_def)

lemma run_Cons: "run s (e # es) = run (step s e) es"
  by (simp add: run_def)

lemma app_inv_init: "app_inv app_init"
  by (simp add: app_inv_def app_init_def truthy_def)

lemma timers_single: "length xs \<le> 1 \<Longrightarrow> xs = [] \<or> (\<exists>t. xs = [t])"
  by (cases xs) auto

lemma app_inv_generate:
  assumes "app_inv s" shows "app_inv (step s (Generate pid))"
proof -
  from assms have "timers s = [] \<or> (\<exists>t. timers s = [t])"
    by (simp add: app_inv_def timers_single)
  with assms show ?thesis
    by (auto simp add: app_inv_def commit_def handleGenerate_def pollEffect_def runCleanup_def
        clearInterval_def setInterval_def truthy_def poll_interval_def
        split: option.splits)
qed

lemma app_inv_tick:
  assumes "app_inv s" shows "app_inv (step s (Tick h))"
proof -
  from assms have "timers s = [] \<or> (\<exists>t. timers s = [t])"
    by (simp add: app_inv_def timers_single)
  with assms show ?thesis
    by (auto simp add: app_inv_def fire_def pollTick_def poll_interval_def
        split: option.splits if_splits)
qed

lemma app_inv_settle:
  assumes "app_inv s" shows "app_inv (step s (Settle k r))"
proof -
  from assms have "timers s = [] \<or> (\<exists>t. timers s = [t])"
    by (simp add: app_inv_def timers_single)
  moreover have "\<And>q. q \<in> set (take k (inflight s) @ drop (Suc k) (inflight s))
      \<Longrightarrow> q \<in> set (inflight s)"
    by (auto dest: in_set_takeD in_set_dropD)
  ultimately show ?thesis using assms
    by (auto simp add: app_inv_def settle_def pollSettled_def clearInterval_def checkStatus_def
        split: option.splits sum.splits axios.splits)
qed

lemma app_inv_elapse:
  assumes "app_inv s" shows "app_inv (step s (Elapse d))"
  using assms by (auto simp add: app_inv_def list_all_iff)

lemma app_inv_step: "app_inv s \<Longrightarrow> app_inv (step s e)"
  by (cases e) (simp_all only: app_inv_generate app_inv_tick app_inv_settle app_inv_elapse)

lemma app_inv_run: "app_inv s \<Longrightarrow> app_inv (run s es)"
  unfolding run_def by (induction es arbitrary: s) (simp_all add: app_inv_step)

lemma app_inv_reachable: "app_inv (run app_init es)"
  by (rule app_inv_run[OF app_inv_init])

section \<open>A cleared timer never polls again\<close>

lemma find_handle_None: "h \<notin> handle ` set ts \<Longrightarrow> find (\<lambda>t. handle t = h) ts = None"
  by (induction ts) auto

lemma dead_handle_step:
  assumes "h < nextHandle s" and "h \<notin> handle ` set (timers s)"
  shows "h < nextHandle (step s e) \<and> h \<notin> handle ` set (timers (step s e))
         \<and> queries_of h (step s e) = queries_of h s"
proof (cases e)
  case (Generate pid)
  with assms show ?thesis
    by (auto simp add: commit_def handleGenerate_def pollEffect_def runCleanup_def
        clearInterval_def setInterval_def queries_of_def split: option.splits)
next
  case (Tick h')
  show ?thesis
  proof (cases "h' = h")
    case True
    with assms Tick show ?thesis by (simp add: fire_def find_handle_None)
  next
    case False
    with assms Tick show ?thesis
      by (auto simp add: fire_def pollTick_def queries_of_def split: option.splits
          dest!: find_Some_iff[THEN iffD1])
  qed
next
  case (Settle k r)
  with assms show ?thesis
    by (auto simp add: settle_def pollSettled_def clearInterval_def queries_of_def
        split: sum.splits)
next
  case (Elapse d)
  with assms show ?thesis by (simp add: queries_of_def)
qed

lemma dead_handle_run:
  assumes "h < nextHandle s" and "h \<notin> handle ` set (timers s)"
  shows "queries_of h (run s es) = queries_of h s"
  using assms
proof (induction es arbitrary: s)
  case Nil
  show ?case by (simp add: run_Nil)
next
  case (Cons e es)
  from dead_handle_step[OF Cons.prems, of e] Cons.IH[of "step s e"]
  show ?case by (simp add: run_Cons)
qed

lemma idle_step:
  assumes "timers s = []" and "\<not> is_generate e"
  shows "timers (step s e) = [] \<and> queries (step s e) = queries s"
  using assms
  by (cases e) (auto simp add: fire_def settle_def pollSettled_def clearInterval_def queries_def
      split: sum.splits)

lemma idle_run:
  assumes "timers s = []" and "list_all (\<lambda>e. \<not> is_generate e) es"
  shows "queries (run s es) = queries s"
  using assms
proof (induction es arbitrary: s)
  case Nil
  show ?case by (simp add: run_Nil)
next
  case (Cons e es)
  from Cons.prems have e: "\<not> is_generate e" and es: "list_all (\<lambda>e. \<not> is_generate e) es"
    by simp_all
  from idle_step[OF Cons.prems(1) e] Cons.IH[of "step s e", OF _ es]
  show ?case by (simp add: run_Cons)
qed

lemmas view_eval = render_preview_def render_download_def render_error_def Preview_def
  DownloadButton_def downloadZip_def truthy_def


section \<open>Single steps of the polling effect\<close>

lemma generate_new_session:
  assumes "app_inv s" and "p \<noteq> []" and "projectId s \<noteq> Some p"
  shows "step s (Generate (Some p)) =
     s\<lparr>projectId := Some p, loadingPreview := True, error := None,
       timers := [\<lparr>handle = nextHandle s, session = p, due = now s + 5000\<rparr>],
       nextHandle := Suc (nextHandle s), cleanup := Some (nextHandle s),
       trace := trace s @ (case cleanup s of None \<Rightarrow> [] | Some c \<Rightarrow> [(now s, ClearInterval c)])
                @ [(now s, SetInterval (nextHandle s) p)]\<rparr>"
proof -
  from assms(1) have "timers s = [] \<or> (\<exists>t. timers s = [t])"
    by (simp add: app_inv_def timers_single)
  with assms show ?thesis
    by (auto simp add: app_inv_def commit_def handleGenerate_def pollEffect_def runCleanup_def
        clearInterval_def setInterval_def poll_interval_def truthy_def split: option.splits)
qed

lemma poll_not_ready:
  assumes "timers s = [\<lparr>handle = h, session = p, due = d\<rparr>]" and "status x \<noteq> Some ''ready''"
  shows "run s [Tick h, Settle (length (inflight s)) (Fulfilled x)] =
     s\<lparr>now := d, timers := [\<lparr>handle = h, session = p, due = d + 5000\<rparr>],
       trace := trace s @ [(d, CheckStatus h p)]\<rparr>"
  using assms
  by (simp add: run_def fire_def pollTick_def settle_def pollSettled_def checkStatus_def
      poll_interval_def)

lemma poll_ready:
  assumes "timers s = [\<lparr>handle = h, session = p, due = d\<rparr>]" and "status r = Some ''ready''"
  shows "run s [Tick h, Settle (length (inflight s)) (Fulfilled r)] =
     s\<lparr>now := d, timers := [], previewUrl := preview_url r, zipUrl := zip_url r,
       loadingPreview := False,
       trace := trace s @ [(d, CheckStatus h p), (d, ClearInterval h)]\<rparr>"
  using assms
  by (simp add: run_def fire_def pollTick_def settle_def pollSettled_def checkStatus_def
      poll_interval_def clearInterval_def)

lemma settle_rejected:
  assumes "k < length (inflight s)"
  shows "step s (Settle k (Rejected detail)) =
     s\<lparr>inflight := take k (inflight s) @ drop (Suc k) (inflight s),
       error := Some (error_message detail ''Status check failed''),
       loadingPreview := False,
       timers := filter (\<lambda>t. handle t \<noteq> fst (inflight s ! k)) (timers s),
       trace := trace s @ [(now s, ClearInterval (fst (inflight s ! k)))]\<rparr>"
  using assms by (simp add: settle_def pollSettled_def checkStatus_def clearInterval_def)

lemma error_message_nonempty: "error_message detail ''Status check failed'' \<noteq> []"
  by (simp add: error_message_def split: option.splits)

lemma fresh_handle_no_queries:
  assumes "app_inv s"
  shows "queries_of (nextHandle s) s = []"
proof -
  have "\<And>e. e \<in> set (trace s) \<Longrightarrow> \<not> issued_by (nextHandle s) e"
  proof -
    fix e assume "e \<in> set (trace s)"
    with assms have "op_handle e < nextHandle s" by (simp add: app_inv_def)
    then show "\<not> issued_by (nextHandle s) e"
      by (cases e rule: op_handle.cases) auto
  qed
  then show ?thesis by (simp add: queries_of_def filter_empty_conv)
qed

lemma step_queries_idle:
  assumes "timers s = []"
  shows "queries (step s e) = queries s"
  using assms
  by (cases e) (auto simp add: commit_def handleGenerate_def pollEffect_def runCleanup_def
      setInterval_def clearInterval_def fire_def settle_def pollSettled_def queries_def
      split: option.splits sum.splits)

section \<open>Four polls, then ready\<close>

text \<open>
  C1 as stated fails: the timer does not wait for an outstanding request. In the run
  below the requests of the session settle not ready three times and then ready, but the
  fourth settles only after the fifth firing; the session has issued five status requests
  when the ready snapshot stops the timer, and the fifth is still outstanding.
\<close>

theorem slow_response_fifth_poll:
  "queries (run app_init
      [Generate (Some ''p1''),
       Tick 0, Settle 0 (Fulfilled pending_snapshot), Tick 0, Settle 0 (Fulfilled pending_snapshot),
       Tick 0, Settle 0 (Fulfilled pending_snapshot), Tick 0, Tick 0,
       Settle 0 (Fulfilled ready_snapshot)])
   = [(5000, CheckStatus 0 ''p1''), (10000, CheckStatus 0 ''p1''), (15000, CheckStatus 0 ''p1''),
      (20000, CheckStatus 0 ''p1''), (25000, CheckStatus 0 ''p1'')]
   \<and> timers (run app_init
      [Generate (Some ''p1''),
       Tick 0, Settle 0 (Fulfilled pending_snapshot), Tick 0, Settle 0 (Fulfilled pending_snapshot),
       Tick 0, Settle 0 (Fulfilled pending_snapshot), Tick 0, Tick 0,
       Settle 0 (Fulfilled ready_snapshot)]) = []
   \<and> inflight (run app_init
      [Generate (Some ''p1''),
       Tick 0, Settle 0 (Fulfilled pending_snapshot), Tick 0, Settle 0 (Fulfilled pending_snapshot),
       Tick 0, Settle 0 (Fulfilled pending_snapshot), Tick 0, Tick 0,
       Settle 0 (Fulfilled ready_snapshot)]) = [(0, ''p1'')]"
  by (simp add: app_eval)

text \<open>
  C1, amended: each request settles before the next firing. From any reachable state, a
  submission reports a new identifier \<open>p\<close> at time \<open>t0\<close>; the timer the effect registers
  fires, and each request settles before the timer fires again: not ready three times,
  then ready. Then the trace since the adoption is exactly four status requests for \<open>p\<close>,
  at \<open>t0 + 5000\<close>, \<open>t0 + 10000\<close>, \<open>t0 + 15000\<close> and \<open>t0 + 20000\<close> milliseconds (one per
  interval), followed by the \<open>clearInterval\<close> of that timer; no timer is active
  afterwards; the preview and download references are those of the ready snapshot and the
  loading flag is cleared. Whatever happens later, this timer issues no fifth request, and
  no request at all is issued before the next submission.
\<close>

theorem four_polls_then_ready:
  assumes "s = run app_init es" and "p \<noteq> []" and "projectId s \<noteq> Some p"
    and "status d1 \<noteq> Some ''ready''" and "status d2 \<noteq> Some ''ready''"
    and "status d3 \<noteq> Some ''ready''" and "status r = Some ''ready''"
    and "h = nextHandle s" and "n = length (inflight s)" and "t0 = now s"
    and "s' = run s [Generate (Some p),
                    Tick h, Settle n (Fulfilled d1), Tick h, Settle n (Fulfilled d2),
                    Tick h, Settle n (Fulfilled d3), Tick h, Settle n (Fulfilled r)]"
  shows "trace s' = trace (step s (Generate (Some p))) @
            [(t0 + 5000, CheckStatus h p), (t0 + 10000, CheckStatus h p),
             (t0 + 15000, CheckStatus h p), (t0 + 20000, CheckStatus h p),
             (t0 + 20000, ClearInterval h)]
       \<and> timers s' = []
       \<and> previewUrl s' = preview_url r \<and> zipUrl s' = zip_url r \<and> \<not> loadingPreview s'
       \<and> (\<forall>es'. queries_of h (run s' es') =
            [(t0 + 5000, CheckStatus h p), (t0 + 10000, CheckStatus h p),
             (t0 + 15000, CheckStatus h p), (t0 + 20000, CheckStatus h p)])
       \<and> (\<forall>es'. list_all (\<lambda>e. \<not> is_generate e) es' \<longrightarrow> queries (run s' es') = queries s')"
proof -
  have inv: "app_inv s" using assms(1) by (simp add: app_inv_reachable)
  define s0 where "s0 = step s (Generate (Some p))"
  define s1 where "s1 = run s0 [Tick h, Settle n (Fulfilled d1)]"
  define s2 where "s2 = run s1 [Tick h, Settle n (Fulfilled d2)]"
  define s3 where "s3 = run s2 [Tick h, Settle n (Fulfilled d3)]"
  have g: "s0 = s\<lparr>projectId := Some p, loadingPreview := True, error := None,
       timers := [\<lparr>handle = nextHandle s, session = p, due = now s + 5000\<rparr>],
       nextHandle := Suc (nextHandle s), cleanup := Some (nextHandle s),
       trace := trace s @ (case cleanup s of None \<Rightarrow> [] | Some c \<Rightarrow> [(now s, ClearInterval c)])
                @ [(now s, SetInterval (nextHandle s) p)]\<rparr>"
    unfolding s0_def by (rule generate_new_session[OF inv assms(2,3)])
  have t0: "timers s0 = [\<lparr>handle = h, session = p, due = t0 + 5000\<rparr>]"
    and n0: "length (inflight s0) = n" and h0: "h < nextHandle s0"
    and q0: "queries_of h s0 = []" and qq0: "queries s0 = queries s"
    using fresh_handle_no_queries[OF inv]
    by (simp_all add: g assms(8,9,10) queries_of_def queries_def split: option.splits)
  have e1: "s1 = s0\<lparr>now := t0 + 5000, timers := [\<lparr>handle = h, session = p, due = t0 + 5000 + 5000\<rparr>],
       trace := trace s0 @ [(t0 + 5000, CheckStatus h p)]\<rparr>"
    unfolding s1_def using poll_not_ready[OF t0 assms(4)] n0 by simp
  have t1: "timers s1 = [\<lparr>handle = h, session = p, due = t0 + 10000\<rparr>]"
    and n1: "length (inflight s1) = n"
    by (simp_all add: e1 n0)
  have e2: "s2 = s1\<lparr>now := t0 + 10000, timers := [\<lparr>handle = h, session = p, due = t0 + 10000 + 5000\<rparr>],
       trace := trace s1 @ [(t0 + 10000, CheckStatus h p)]\<rparr>"
    unfolding s2_def using poll_not_ready[OF t1 assms(5)] n1 by simp
  have t2: "timers s2 = [\<lparr>handle = h, session = p, due = t0 + 15000\<rparr>]"
    and n2: "length (inflight s2) = n"
    by (simp_all add: e2 n1)
  have e3: "s3 = s2\<lparr>now := t0 + 15000, timers := [\<lparr>handle = h, session = p, due = t0 + 15000 + 5000\<rparr>],
       trace := trace s2 @ [(t0 + 15000, CheckStatus h p)]\<rparr>"
    unfolding s3_def using poll_not_ready[OF t2 assms(6)] n2 by simp
  have t3: "timers s3 = [\<lparr>handle = h, session = p, due = t0 + 20000\<rparr>]"
    and n3: "length (inflight s3) = n"
    by (simp_all add: e3 n2)
  have "s' = run s3 [Tick h, Settle n (Fulfilled r)]"
    unfolding assms(11) s3_def s2_def s1_def s0_def by (simp add: run_def)
  then have e4: "s' = s3\<lparr>now := t0 + 20000, timers := [], previewUrl := preview_url r,
       zipUrl := zip_url r, loadingPreview := False,
       trace := trace s3 @ [(t0 + 20000, CheckStatus h p), (t0 + 20000, ClearInterval h)]\<rparr>"
    using poll_ready[OF t3 assms(7)] n3 by simp
  have tr: "trace s' = trace s0 @
            [(t0 + 5000, CheckStatus h p), (t0 + 10000, CheckStatus h p),
             (t0 + 15000, CheckStatus h p), (t0 + 20000, CheckStatus h p),
             (t0 + 20000, ClearInterval h)]"
    by (simp add: e4 e3 e2 e1)
  have ti: "timers s' = []" by (simp add: e4)
  have pv: "previewUrl s' = preview_url r" and zu: "zipUrl s' = zip_url r"
    and lp: "\<not> loadingPreview s'"
    by (simp_all add: e4)
  have h': "h < nextHandle s'" using h0 by (simp add: e4 e3 e2 e1)
  have dead: "h \<notin> handle ` set (timers s')" by (simp add: ti)
  have q': "queries_of h s' =
            [(t0 + 5000, CheckStatus h p), (t0 + 10000, CheckStatus h p),
             (t0 + 15000, CheckStatus h p), (t0 + 20000, CheckStatus h p)]"
    using q0 by (simp add: queries_of_def tr)
  have forever: "\<forall>es'. queries_of h (run s' es') =
            [(t0 + 5000, CheckStatus h p), (t0 + 10000, CheckStatus h p),
             (t0 + 15000, CheckStatus h p), (t0 + 20000, CheckStatus h p)]"
    using dead_handle_run[OF h' dead] q' by simp
  have idle: "\<forall>es'. list_all (\<lambda>e. \<not> is_generate e) es' \<longrightarrow> queries (run s' es') = queries s'"
    using idle_run[OF ti] by simp
  from tr ti pv zu lp forever idle show ?thesis unfolding s0_def by blast
qed

theorem four_polls_then_ready_witness:
  "''p1'' \<noteq> [] \<and> projectId (run app_init [Generate (Some ''p0''), Tick 0]) \<noteq> Some ''p1''
   \<and> status pending_snapshot \<noteq> Some ''ready'' \<and> status ready_snapshot = Some ''ready''
   \<and> nextHandle (run app_init [Generate (Some ''p0''), Tick 0]) = 1
   \<and> length (inflight (run app_init [Generate (Some ''p0''), Tick 0])) = 1
   \<and> now (run app_init [Generate (Some ''p0''), Tick 0]) = 5000
   \<and> queries (run (run app_init [Generate (Some ''p0''), Tick 0])
        [Generate (Some ''p1''),
         Tick 1, Settle 1 (Fulfilled pending_snapshot), Tick 1, Settle 1 (Fulfilled pending_snapshot),
         Tick 1, Settle 1 (Fulfilled pending_snapshot), Tick 1, Settle 1 (Fulfilled ready_snapshot)])
      = [(5000, CheckStatus 0 ''p0''), (10000, CheckStatus 1 ''p1''), (15000, CheckStatus 1 ''p1''),
         (20000, CheckStatus 1 ''p1''), (25000, CheckStatus 1 ''p1'')]
   \<and> zipUrl (run (run app_init [Generate (Some ''p0''), Tick 0])
        [Generate (Some ''p1''),
         Tick 1, Settle 1 (Fulfilled pending_snapshot), Tick 1, Settle 1 (Fulfilled pending_snapshot),
         Tick 1, Settle 1 (Fulfilled pending_snapshot), Tick 1, Settle 1 (Fulfilled ready_snapshot)])
      = Some ''/p1.zip''"
  using four_polls_then_ready [OF refl _ _ _ _ _ _ refl refl refl refl,
      of "''p1''" "[Generate (Some ''p0''), Tick 0]" pending_snapshot pending_snapshot
         pending_snapshot ready_snapshot]
  by (simp add: app_eval)

section \<open>A failed poll ends the session's polling\<close>

text \<open>
  C3. In any reachable state, when an outstanding status request of the timer \<open>h\<close> fails,
  the \<open>catch\<close> branch clears that timer (the last operation in the trace), records the
  message of the error (the server's detail, or \<open>Status check failed\<close>), which the root
  renders, and clears the loading flag. The timer \<open>h\<close> never issues a request again, in
  any continuation; and when \<open>h\<close> is the timer of the tracked session, no timer is left and
  no status request is issued until a submission reports an identifier.
\<close>

theorem failed_poll_stops_session:
  assumes "s = run app_init es" and "k < length (inflight s)"
    and "h = fst (inflight s ! k)" and "s' = step s (Settle k (Rejected detail))"
  shows "h \<notin> handle ` set (timers s')
       \<and> last (trace s') = (now s, ClearInterval h)
       \<and> error s' = Some (error_message detail ''Status check failed'')
       \<and> render_error s' = Some (error_message detail ''Status check failed'')
       \<and> \<not> loadingPreview s'
       \<and> (\<forall>es'. queries_of h (run s' es') = queries_of h s)
       \<and> (cleanup s = Some h \<longrightarrow> timers s' = []
            \<and> (\<forall>es'. list_all (\<lambda>e. \<not> is_generate e) es' \<longrightarrow> queries (run s' es') = queries s))"
proof -
  have inv: "app_inv s" using assms(1) by (simp add: app_inv_reachable)
  have s': "s' = s\<lparr>inflight := take k (inflight s) @ drop (Suc k) (inflight s),
       error := Some (error_message detail ''Status check failed''),
       loadingPreview := False,
       timers := filter (\<lambda>t. handle t \<noteq> h) (timers s),
       trace := trace s @ [(now s, ClearInterval h)]\<rparr>"
    using assms(2,3,4) settle_rejected[of k s detail] by simp
  have hlt: "h < nextHandle s"
    using inv assms(2,3) by (auto simp add: app_inv_def)
  have dead: "h \<notin> handle ` set (timers s')" using s' by auto
  have q: "queries_of h s' = queries_of h s" using s' by (simp add: queries_of_def)
  have forever: "\<forall>es'. queries_of h (run s' es') = queries_of h s"
  proof
    fix es'
    have "h < nextHandle s'" using hlt s' by simp
    from dead_handle_run[OF this dead, of es'] q
    show "queries_of h (run s' es') = queries_of h s" by simp
  qed
  have cur: "cleanup s = Some h \<longrightarrow> timers s' = []
            \<and> (\<forall>es'. list_all (\<lambda>e. \<not> is_generate e) es' \<longrightarrow> queries (run s' es') = queries s)"
  proof
    assume c: "cleanup s = Some h"
    have t: "timers s' = []"
      using inv c s' by (auto simp add: app_inv_def filter_empty_conv)
    have "queries s' = queries s" using s' by (simp add: queries_def)
    with idle_run[OF t] t
    show "timers s' = []
            \<and> (\<forall>es'. list_all (\<lambda>e. \<not> is_generate e) es' \<longrightarrow> queries (run s' es') = queries s)"
      by simp
  qed
  have l: "last (trace s') = (now s, ClearInterval h)" using s' by simp
  have e: "error s' = Some (error_message detail ''Status check failed'')" using s' by simp
  have r: "render_error s' = Some (error_message detail ''Status check failed'')"
    using e error_message_nonempty[of detail] by (simp add: render_error_def truthy_def)
  have lp: "\<not> loadingPreview s'" using s' by simp
  from dead l e r lp forever cur show ?thesis by blast
qed

theorem failed_poll_stops_session_witness:
  "0 < length (inflight (run app_init failing_run))
   \<and> cleanup (run app_init failing_run) = Some (fst (inflight (run app_init failing_run) ! 0))
   \<and> error (step (run app_init failing_run) (Settle 0 (Rejected None))) = Some ''Status check failed''
   \<and> timers (step (run app_init failing_run) (Settle 0 (Rejected None))) = []
   \<and> queries (run (step (run app_init failing_run) (Settle 0 (Rejected None)))
        [Tick 0, Elapse 5000, Tick 0])
      = [(5000, CheckStatus 0 ''p1''), (10000, CheckStatus 0 ''p1'')]"
  using failed_poll_stops_session [OF refl _ refl refl, of 0 failing_run None]
  by (simp add: app_eval failing_run_def)

section \<open>One session at a time\<close>

text \<open>
  C5. In every reachable state at most one interval timer is active, and it polls the
  tracked identifier. Adopting a different identifier \<open>b\<close> while \<open>a\<close> is tracked runs the
  cleanup of the previous effect first: the trace is extended by the \<open>clearInterval\<close> of
  the previous session's timer and then the \<open>setInterval\<close> of the new one, no request in
  between, and the only active timer afterwards is the new one.
\<close>

theorem single_active_session:
  assumes "s = run app_init es"
  shows "length (timers s) \<le> 1
       \<and> (\<forall>t\<in>set (timers s). projectId s = Some (session t))
       \<and> (projectId s = Some a \<and> a \<noteq> [] \<and> b \<noteq> [] \<and> a \<noteq> b \<longrightarrow>
            (\<exists>c. cleanup s = Some c \<and> handle ` set (timers s) \<subseteq> {c} \<and> c < nextHandle s
               \<and> trace (step s (Generate (Some b))) =
                    trace s @ [(now s, ClearInterval c), (now s, SetInterval (nextHandle s) b)]
               \<and> timers (step s (Generate (Some b))) =
                    [\<lparr>handle = nextHandle s, session = b, due = now s + 5000\<rparr>]))"
proof -
  have inv: "app_inv s" using assms(1) by (simp add: app_inv_reachable)
  have a1: "length (timers s) \<le> 1" using inv by (simp add: app_inv_def)
  have a2: "\<forall>t\<in>set (timers s). projectId s = Some (session t)"
    using inv by (simp add: app_inv_def)
  have a3: "projectId s = Some a \<and> a \<noteq> [] \<and> b \<noteq> [] \<and> a \<noteq> b \<longrightarrow>
            (\<exists>c. cleanup s = Some c \<and> handle ` set (timers s) \<subseteq> {c} \<and> c < nextHandle s
               \<and> trace (step s (Generate (Some b))) =
                    trace s @ [(now s, ClearInterval c), (now s, SetInterval (nextHandle s) b)]
               \<and> timers (step s (Generate (Some b))) =
                    [\<lparr>handle = nextHandle s, session = b, due = now s + 5000\<rparr>])"
  proof
    assume h: "projectId s = Some a \<and> a \<noteq> [] \<and> b \<noteq> [] \<and> a \<noteq> b"
    then have "truthy (projectId s)" by (simp add: truthy_def)
    with inv obtain c where c: "cleanup s = Some c" by (auto simp add: app_inv_def)
    have sub: "handle ` set (timers s) \<subseteq> {c}" using inv c by (auto simp add: app_inv_def)
    have lt: "c < nextHandle s" using inv c by (simp add: app_inv_def)
    from h have "b \<noteq> []" and "projectId s \<noteq> Some b" by simp_all
    from generate_new_session[OF inv this] c
    have "trace (step s (Generate (Some b))) =
                    trace s @ [(now s, ClearInterval c), (now s, SetInterval (nextHandle s) b)]"
      and "timers (step s (Generate (Some b))) =
                    [\<lparr>handle = nextHandle s, session = b, due = now s + 5000\<rparr>]"
      by simp_all
    with c sub lt show "\<exists>c. cleanup s = Some c \<and> handle ` set (timers s) \<subseteq> {c} \<and> c < nextHandle s
               \<and> trace (step s (Generate (Some b))) =
                    trace s @ [(now s, ClearInterval c), (now s, SetInterval (nextHandle s) b)]
               \<and> timers (step s (Generate (Some b))) =
                    [\<lparr>handle = nextHandle s, session = b, due = now s + 5000\<rparr>]"
      by blast
  qed
  from a1 a2 a3 show ?thesis by blast
qed

theorem single_active_session_witness:
  "projectId (run app_init [Generate (Some ''p0''), Tick 0]) = Some ''p0''
   \<and> ''p0'' \<noteq> [] \<and> ''p1'' \<noteq> [] \<and> ''p0'' \<noteq> ''p1''
   \<and> timers (run app_init [Generate (Some ''p0''), Tick 0])
       = [\<lparr>handle = 0, session = ''p0'', due = 10000\<rparr>]
   \<and> trace (step (run app_init [Generate (Some ''p0''), Tick 0]) (Generate (Some ''p1'')))
       = [(0, SetInterval 0 ''p0''), (5000, CheckStatus 0 ''p0''),
          (5000, ClearInterval 0), (5000, SetInterval 1 ''p1'')]
   \<and> timers (step (run app_init [Generate (Some ''p0''), Tick 0]) (Generate (Some ''p1'')))
       = [\<lparr>handle = 1, session = ''p1'', due = 10000\<rparr>]"
  using single_active_session [OF refl, of "[Generate (Some ''p0''), Tick 0]" "''p0''" "''p1''"]
  by (simp add: app_eval)

section \<open>Not-ready snapshots leave the state alone\<close>

text \<open>
  C9. When a status request succeeds with a snapshot whose status is not \<open>ready\<close>, the
  continuation of the timer callback changes nothing, in any state: the state after it is
  the state before it with the request gone from the outstanding ones, so the preview
  reference, the download reference, the loading flag, the error slot and the active
  timers are as they were. A whole poll tick (the timer fires, its request settles not
  ready) moves the clock to the firing time, schedules the next firing one interval later
  and adds the one request to the trace; the timer stays active.
\<close>

theorem not_ready_poll_frame:
  assumes "status d \<noteq> Some ''ready''"
  shows "(k < length (inflight s) \<longrightarrow>
            step s (Settle k (Fulfilled d)) =
              s\<lparr>inflight := take k (inflight s) @ drop (Suc k) (inflight s)\<rparr>)
       \<and> (timers s = [t] \<longrightarrow>
            run s [Tick (handle t), Settle (length (inflight s)) (Fulfilled d)] =
              s\<lparr>now := due t, timers := [t\<lparr>due := due t + poll_interval\<rparr>],
                trace := trace s @ [(due t, CheckStatus (handle t) (session t))]\<rparr>)"
  using assms
  by (simp add: settle_def pollSettled_def checkStatus_def run_def fire_def pollTick_def)

theorem not_ready_poll_frame_witness:
  "status pending_snapshot \<noteq> Some ''ready''
   \<and> 0 < length (inflight (run app_init [Generate (Some ''p1''), Tick 0]))
   \<and> timers (run app_init [Generate (Some ''p1''), Tick 0])
       = [\<lparr>handle = 0, session = ''p1'', due = 10000\<rparr>]
   \<and> step (run app_init [Generate (Some ''p1''), Tick 0]) (Settle 0 (Fulfilled pending_snapshot))
       = (run app_init [Generate (Some ''p1''), Tick 0])\<lparr>inflight := []\<rparr>
   \<and> loadingPreview (run (run app_init [Generate (Some ''p1''), Tick 0])
        [Tick 0, Settle 1 (Fulfilled pending_snapshot)])
   \<and> timers (run (run app_init [Generate (Some ''p1''), Tick 0])
        [Tick 0, Settle 1 (Fulfilled pending_snapshot)])
       = [\<lparr>handle = 0, session = ''p1'', due = 15000\<rparr>]"
  using not_ready_poll_frame [of pending_snapshot 0 "run app_init [Generate (Some ''p1''), Tick 0]"
      "\<lparr>handle = 0, session = ''p1'', due = 10000\<rparr>"]
  by (simp add: app_eval)

section \<open>No polling without an identifier\<close>

text \<open>
  C10. In every reachable state whose tracked identifier is \<open>null\<close> (or empty) the polling
  effect is the identity, no timer is active, a timer firing does nothing, and no event
  adds a status request to the trace. In any state at all, the effect body with a falsy
  identifier returns at its guard: it registers no timer and issues no request.
\<close>

theorem no_poll_without_identifier:
  assumes "s = run app_init es" and "\<not> truthy (projectId s)"
  shows "pollEffect s = s \<and> timers s = [] \<and> (\<forall>h. step s (Tick h) = s)
       \<and> (\<forall>e. queries (step s e) = queries s)
       \<and> (\<not> truthy (projectId x) \<longrightarrow> pollEffect x = x\<lparr>cleanup := None\<rparr>)"
proof -
  have inv: "app_inv s" using assms(1) by (simp add: app_inv_reachable)
  have c: "cleanup s = None" using inv assms(2) by (simp add: app_inv_def)
  have t: "timers s = []"
  proof (cases "timers s")
    case Nil
    then show ?thesis .
  next
    case (Cons u us)
    with inv have "cleanup s = Some (handle u)" by (simp add: app_inv_def)
    with c show ?thesis by simp
  qed
  have p: "pollEffect s = s"
    using assms(2) c by (auto simp add: pollEffect_def truthy_def split: option.splits)
  have f: "\<forall>h. step s (Tick h) = s" using t by (simp add: fire_def)
  have q: "\<forall>e. queries (step s e) = queries s" using step_queries_idle[OF t] by simp
  have g: "\<not> truthy (projectId x) \<longrightarrow> pollEffect x = x\<lparr>cleanup := None\<rparr>"
    by (auto simp add: pollEffect_def truthy_def split: option.splits)
  from p t f q g show ?thesis by blast
qed

theorem no_poll_without_identifier_witness:
  "\<not> truthy (projectId (run app_init [Generate (Some ''p1''), Tick 0, Generate None]))
   \<and> timers (run app_init [Generate (Some ''p1''), Tick 0, Generate None]) = []
   \<and> queries (step (run app_init [Generate (Some ''p1''), Tick 0, Generate None]) (Tick 0))
      = [(5000, CheckStatus 0 ''p1'')]
   \<and> \<not> truthy (projectId app_init)
   \<and> pollEffect app_init = app_init"
  using no_poll_without_identifier [OF refl, of "[Generate (Some ''p1''), Tick 0, Generate None]" app_init]
  by (simp add: app_eval truthy_def)

section \<open>Adopting an identifier keeps the recorded references\<close>

text \<open>
  C6 as stated fails. After a session became ready and a second submission reported the
  identifier \<open>p2\<close>, the preview and download references of the first session are still in
  the state; the download button of the first session is still rendered (disabled), where
  a fresh coordinator renders none; and when the first poll of \<open>p2\<close> fails, the frame of
  the first session is shown again and the download action navigates to its archive.
\<close>

theorem stale_references_counterexample:
  "previewUrl (run app_init stale_run) = Some ''/p1/preview''
   \<and> zipUrl (run app_init stale_run) = Some ''/p1.zip''
   \<and> projectId (run app_init stale_run) = Some ''p2''
   \<and> render_download (run app_init stale_run) = Button True ''/p1.zip''
   \<and> render_download (run app_init [Generate (Some ''p2'')]) = NoButton
   \<and> render_preview (run app_init (stale_run @ [Tick 1, Settle 0 (Rejected None)]))
        = PreviewFrame ''/p1/preview''
   \<and> activate (render_download (run app_init (stale_run @ [Tick 1, Settle 0 (Rejected None)]))) ''/''
        = ''/p1.zip''"
  by (simp add: app_eval view_eval stale_run_def)

text \<open>
  C6, amended. Adopting an identifier keeps the preview reference and the download
  reference as they were; it stores the identifier, sets the loading flag and clears the
  error. While the loading flag is set the preview renders the loading placeholder
  instead of the frame and the download action is not enabled, so activating it leaves
  the location unchanged.
\<close>

theorem adoption_keeps_references:
  "previewUrl (step s (Generate pid)) = previewUrl s
   \<and> zipUrl (step s (Generate pid)) = zipUrl s
   \<and> projectId (step s (Generate pid)) = pid
   \<and> loadingPreview (step s (Generate pid))
   \<and> error (step s (Generate pid)) = None
   \<and> render_preview (step s (Generate pid)) = PreviewLoading
   \<and> \<not> enabled (render_download (step s (Generate pid)))
   \<and> activate (render_download (step s (Generate pid))) href = href"
  by (simp add: commit_def handleGenerate_def pollEffect_def runCleanup_def setInterval_def
      clearInterval_def render_preview_def render_download_def Preview_def DownloadButton_def
      split: option.splits)

theorem adoption_keeps_references_witness:
  "previewUrl (step (run app_init [Generate (Some ''p1''), Tick 0, Settle 0 (Fulfilled ready_snapshot)])
      (Generate (Some ''p2''))) = Some ''/p1/preview''
   \<and> render_preview (step (run app_init [Generate (Some ''p1''), Tick 0, Settle 0 (Fulfilled ready_snapshot)])
      (Generate (Some ''p2''))) = PreviewLoading"
  using adoption_keeps_references
    [of "run app_init [Generate (Some ''p1''), Tick 0, Settle 0 (Fulfilled ready_snapshot)]"
        "Some ''p2''"]
  by (simp add: app_eval)

section \<open>The download action\<close>

lemma zipUrl_step:
  "zipUrl (step s e) = zipUrl s
   \<or> (\<exists>k d. e = Settle k (Fulfilled d) \<and> status d = Some ''ready'' \<and> zipUrl (step s e) = zip_url d)"
proof (cases e)
  case (Generate pid)
  then show ?thesis
    by (simp add: commit_def handleGenerate_def pollEffect_def runCleanup_def setInterval_def
        clearInterval_def split: option.splits)
next
  case (Tick h)
  then show ?thesis by (simp add: fire_def pollTick_def split: option.splits)
next
  case (Settle k r)
  then show ?thesis
    by (cases r) (auto simp add: settle_def pollSettled_def checkStatus_def clearInterval_def)
next
  case (Elapse d)
  then show ?thesis by simp
qed

lemma zipUrl_from_ready:
  "zipUrl (run app_init es) = Some z \<Longrightarrow>
     \<exists>k d. Settle k (Fulfilled d) \<in> set es \<and> status d = Some ''ready'' \<and> zip_url d = Some z"
proof (induction es arbitrary: z rule: rev_induct)
  case Nil
  then show ?case by (simp add: run_def app_init_def)
next
  case (snoc e es)
  have r: "run app_init (es @ [e]) = step (run app_init es) e" by (simp add: run_def)
  from zipUrl_step[of "run app_init es" e] show ?case
  proof
    assume "zipUrl (step (run app_init es) e) = zipUrl (run app_init es)"
    with snoc.prems r have "zipUrl (run app_init es) = Some z" by simp
    from snoc.IH[OF this] show ?thesis by auto
  next
    assume "\<exists>k d. e = Settle k (Fulfilled d) \<and> status d = Some ''ready''
              \<and> zipUrl (step (run app_init es) e) = zip_url d"
    then obtain k d where e: "e = Settle k (Fulfilled d)" and d: "status d = Some ''ready''"
      and z: "zipUrl (step (run app_init es) e) = zip_url d" by blast
    from z snoc.prems r have "zip_url d = Some z" by simp
    with e d show ?thesis by (intro exI[of _ k] exI[of _ d]) simp
  qed
qed

lemma enabled_DownloadButton: "enabled (DownloadButton url dis) = (truthy url \<and> \<not> dis)"
  by (simp add: DownloadButton_def truthy_def split: option.splits)

text \<open>
  C4 as stated fails in the root coordinator, in both directions. After the first session
  became ready and a second submission reported \<open>p2\<close>, the recorded download reference of
  the first session exists and the action is disabled, because the parent reports
  loading. When the only status request of \<open>p2\<close> then fails, \<open>p2\<close> has no ready download
  reference, yet the action is enabled and activating it navigates to the archive of the
  first session.
\<close>

theorem download_enabled_on_stale_reference:
  "zipUrl (run app_init stale_run) = Some ''/p1.zip''
   \<and> \<not> enabled (render_download (run app_init stale_run))
   \<and> projectId (run app_init (stale_run @ [Tick 1, Settle 0 (Rejected None)])) = Some ''p2''
   \<and> queries_of 1 (run app_init (stale_run @ [Tick 1, Settle 0 (Rejected None)]))
        = [(10000, CheckStatus 1 ''p2'')]
   \<and> error (run app_init (stale_run @ [Tick 1, Settle 0 (Rejected None)]))
        = Some ''Status check failed''
   \<and> enabled (render_download (run app_init (stale_run @ [Tick 1, Settle 0 (Rejected None)])))
   \<and> activate (render_download (run app_init (stale_run @ [Tick 1, Settle 0 (Rejected None)])))
        ''/'' = ''/p1.zip''"
  by (simp add: app_eval view_eval stale_run_def)

text \<open>
  C4, amended: the gate is the recorded reference together with the parent's loading flag.
  The download button is enabled exactly when it is given a truthy reference and the
  parent does not report loading; when it is not enabled (no button, or a disabled one)
  activating it leaves the location unchanged; when it is enabled, activating it sets the
  location to exactly the reference. In the root coordinator the action is enabled only
  if a status request settled with a ready snapshot carrying the recorded reference, and
  when a request settles with a ready snapshot with a non-empty download reference the
  action is enabled and navigates to that reference. The variant that takes the project
  identifier is enabled exactly on a truthy identifier and navigates to the download
  endpoint of that identifier.
\<close>

theorem download_gated_on_reference:
  "enabled (DownloadButton url dis) = (truthy url \<and> \<not> dis)
   \<and> (\<not> enabled (DownloadButton url dis) \<longrightarrow> activate (DownloadButton url dis) href = href)
   \<and> (url = Some u \<and> u \<noteq> [] \<and> \<not> dis \<longrightarrow>
        DownloadButton url dis = Button False u \<and> activate (DownloadButton url dis) href = u)
   \<and> (enabled (render_download (run app_init es)) \<longrightarrow>
        (\<exists>k d. Settle k (Fulfilled d) \<in> set es \<and> status d = Some ''ready''
               \<and> zip_url d = zipUrl (run app_init es)))
   \<and> (k < length (inflight s) \<and> status d = Some ''ready'' \<and> zip_url d = Some z \<and> z \<noteq> [] \<longrightarrow>
        render_download (step s (Settle k (Fulfilled d))) = Button False z
        \<and> activate (render_download (step s (Settle k (Fulfilled d)))) href = z)
   \<and> enabled_byId (DownloadButton_byId pid) = truthy pid
   \<and> activate_byId API_URL (DownloadButton_byId pid) href =
        (case pid of None \<Rightarrow> href
         | Some p \<Rightarrow> if p = [] then href else API_URL @ ''/api/download/'' @ p)"
proof -
  have a1: "enabled (DownloadButton url dis) = (truthy url \<and> \<not> dis)"
    by (rule enabled_DownloadButton)
  have a2: "\<not> enabled (DownloadButton url dis) \<longrightarrow> activate (DownloadButton url dis) href = href"
    by (simp add: DownloadButton_def split: option.splits)
  have a3: "url = Some u \<and> u \<noteq> [] \<and> \<not> dis \<longrightarrow>
        DownloadButton url dis = Button False u \<and> activate (DownloadButton url dis) href = u"
    by (simp add: DownloadButton_def downloadZip_def)
  have a4: "enabled (render_download (run app_init es)) \<longrightarrow>
        (\<exists>k d. Settle k (Fulfilled d) \<in> set es \<and> status d = Some ''ready''
               \<and> zip_url d = zipUrl (run app_init es))"
  proof
    assume "enabled (render_download (run app_init es))"
    then have "truthy (zipUrl (run app_init es))"
      by (simp add: render_download_def enabled_DownloadButton)
    then obtain z where "zipUrl (run app_init es) = Some z"
      by (auto simp add: truthy_def split: option.splits)
    with zipUrl_from_ready[OF this]
    show "\<exists>k d. Settle k (Fulfilled d) \<in> set es \<and> status d = Some ''ready''
               \<and> zip_url d = zipUrl (run app_init es)" by simp
  qed
  have a5: "k < length (inflight s) \<and> status d = Some ''ready'' \<and> zip_url d = Some z \<and> z \<noteq> [] \<longrightarrow>
        render_download (step s (Settle k (Fulfilled d))) = Button False z
        \<and> activate (render_download (step s (Settle k (Fulfilled d)))) href = z"
    by (simp add: settle_def pollSettled_def checkStatus_def clearInterval_def
        render_download_def DownloadButton_def downloadZip_def)
  have a6: "enabled_byId (DownloadButton_byId pid) = truthy pid"
    by (simp add: DownloadButton_byId_def)
  have a7: "activate_byId API_URL (DownloadButton_byId pid) href =
        (case pid of None \<Rightarrow> href
         | Some p \<Rightarrow> if p = [] then href else API_URL @ ''/api/download/'' @ p)"
    by (simp add: DownloadButton_byId_def handleDownload_def downloadZip_byId_def truthy_def
        split: option.splits)
  from a1 a2 a3 a4 a5 a6 a7 show ?thesis by blast
qed

theorem download_gated_on_reference_witness:
  "\<not> enabled (DownloadButton None False)
   \<and> activate (DownloadButton None False) ''/'' = ''/''
   \<and> enabled (render_download
        (run app_init [Generate (Some ''p1''), Tick 0, Settle 0 (Fulfilled ready_snapshot)]))
   \<and> 0 < length (inflight (run app_init [Generate (Some ''p1''), Tick 0]))
   \<and> status ready_snapshot = Some ''ready'' \<and> zip_url ready_snapshot = Some ''/p1.zip''
   \<and> ''/p1.zip'' \<noteq> []
   \<and> activate (render_download
        (step (run app_init [Generate (Some ''p1''), Tick 0]) (Settle 0 (Fulfilled ready_snapshot))))
        ''/'' = ''/p1.zip''
   \<and> activate_byId ''http://localhost:8000'' (DownloadButton_byId (Some ''p1'')) ''/''
        = ''http://localhost:8000/api/download/p1''"
  using download_gated_on_reference
    [of None False "''/''" "''/p1.zip''"
        "[Generate (Some ''p1''), Tick 0, Settle 0 (Fulfilled ready_snapshot)]"
        0 "run app_init [Generate (Some ''p1''), Tick 0]" ready_snapshot "''/p1.zip''"
        "Some ''p1''" "''http://localhost:8000''"]
  by (simp add: app_eval view_eval)

section \<open>The submit action\<close>

lemma trim_empty_iff: "trim xs = [] \<longleftrightarrow> list_all is_ws xs"
proof
  assume "trim xs = []"
  then have "dropWhile is_ws (rev (dropWhile is_ws xs)) = []" by (simp add: trim_def)
  then have all: "\<forall>x\<in>set (dropWhile is_ws xs). is_ws x" by (simp add: dropWhile_eq_Nil_conv)
  have "dropWhile is_ws xs = []"
  proof (rule ccontr)
    assume ne: "dropWhile is_ws xs \<noteq> []"
    then have "\<not> is_ws (hd (dropWhile is_ws xs))" by (rule hd_dropWhile)
    moreover have "hd (dropWhile is_ws xs) \<in> set (dropWhile is_ws xs)" using ne by simp
    ultimately show False using all by blast
  qed
  then show "list_all is_ws xs" by (simp add: dropWhile_eq_Nil_conv list_all_iff)
next
  assume "list_all is_ws xs"
  then have e: "dropWhile is_ws xs = []" by (simp add: dropWhile_eq_Nil_conv list_all_iff)
  show "trim xs = []" unfolding trim_def e by simp
qed

text \<open>
  C8. When every code unit of the description is white space (the empty description
  included), the submit action returns at its guard: the form state is unchanged and no
  request is issued, whether the handler is called directly or through the button.
\<close>

theorem blank_description_is_noop:
  assumes "list_all is_ws (description f)"
  shows "handleGenerate_form f = (f, []) \<and> click_generate f = (f, [])"
  using assms by (simp add: handleGenerate_form_def click_generate_def trim_empty_iff)

theorem blank_description_is_noop_witness:
  "list_all is_ws [0x20, 0x09, 0x0A, 0x3000]
   \<and> handleGenerate_form \<lparr>description = [0x20, 0x09, 0x0A, 0x3000], loading = False,
         error_form = Some ''old''\<rparr>
       = (\<lparr>description = [0x20, 0x09, 0x0A, 0x3000], loading = False, error_form = Some ''old''\<rparr>, [])
   \<and> list_all is_ws []
   \<and> click_generate \<lparr>description = [], loading = False, error_form = None\<rparr>
       = (\<lparr>description = [], loading = False, error_form = None\<rparr>, [])"
  using blank_description_is_noop
    [of "\<lparr>description = [0x20, 0x09, 0x0A, 0x3000], loading = False, error_form = Some ''old''\<rparr>"]
    blank_description_is_noop [of "\<lparr>description = [], loading = False, error_form = None\<rparr>"]
  by (simp add: is_ws_def)

text \<open>
  C7. With a description that is not empty after trimming and no submission in flight, the
  submit action sets the in-flight flag, clears the error and issues exactly one
  generation request, carrying the description; a second click while in flight does
  nothing. When the request succeeds, the identifier of the response is reported to the
  parent once and the in-flight flag is cleared; when it fails, the message of the error
  is recorded, nothing is reported and the in-flight flag is cleared.
\<close>

theorem submit_contract:
  assumes "trim (description f) \<noteq> []" and "\<not> loading f"
  shows "click_generate f =
           (f\<lparr>loading := True, error_form := None\<rparr>, [PostGenerate (description f)])
       \<and> click_generate (fst (click_generate f)) = (fst (click_generate f), [])
       \<and> handleGenerate_form_settled (Fulfilled d) g = (g\<lparr>loading := False\<rparr>, [OnGenerate (project_id d)])
       \<and> handleGenerate_form_settled (Rejected detail) g =
           (g\<lparr>error_form := Some (error_message detail ''Generation failed''), loading := False\<rparr>, [])"
  using assms
  by (simp add: click_generate_def handleGenerate_form_def handleGenerate_form_settled_def
      generateProject_def)

theorem submit_contract_witness:
  "trim [0x20, 0x61, 0x20] = [0x61]
   \<and> \<not> loading \<lparr>description = [0x20, 0x61, 0x20], loading = False, error_form = Some ''old''\<rparr>
   \<and> click_generate \<lparr>description = [0x20, 0x61, 0x20], loading = False, error_form = Some ''old''\<rparr>
      = (\<lparr>description = [0x20, 0x61, 0x20], loading = True, error_form = None\<rparr>,
         [PostGenerate [0x20, 0x61, 0x20]])
   \<and> handleGenerate_form_settled (Fulfilled \<lparr>project_id = Some ''p1''\<rparr>)
        \<lparr>description = [0x20, 0x61, 0x20], loading = True, error_form = None\<rparr>
      = (\<lparr>description = [0x20, 0x61, 0x20], loading = False, error_form = None\<rparr>,
         [OnGenerate (Some ''p1'')])
   \<and> handleGenerate_form_settled (Rejected None)
        \<lparr>description = [0x20, 0x61, 0x20], loading = True, error_form = None\<rparr>
      = (\<lparr>description = [0x20, 0x61, 0x20], loading = False,
          error_form = Some ''Generation failed''\<rparr>, [])"
  using submit_contract
    [of "\<lparr>description = [0x20, 0x61, 0x20], loading = False, error_form = Some ''old''\<rparr>"
        "\<lparr>project_id = Some ''p1''\<rparr>"
        "\<lparr>description = [0x20, 0x61, 0x20], loading = True, error_form = None\<rparr>" None]
  by (simp add: trim_def is_ws_def error_message_def)

section \<open>Teardown before the status query\<close>












end
